theory Spec2Isabelle
  imports Main "HOL-Library.Sublist"
begin

section \<open>The folder server: path confinement and file operations\<close>

text \<open>
  A shallow embedding of \<^verbatim>\<open>src/file explore/basic_file_server.py\<close>. Python strings
  are \<open>string\<close>s, exceptions are values of \<open>py_exception\<close> returned on the left of a
  sum, the file system is an explicit tree that the operations take and return, and the
  calls on the request context (\<^verbatim>\<open>ctx.info\<close>, \<^verbatim>\<open>ctx.error\<close>,
  \<^verbatim>\<open>ctx.report_progress\<close>) are an event list in call order. \<^verbatim>\<open>os.path\<close> is
  \<^verbatim>\<open>posixpath\<close>: the separator is \<open>/\<close>.
\<close>

subsection \<open>Python string methods\<close>

definition SEP :: char where
  "SEP = CHR ''/''"

definition BACKSLASH :: char where
  "BACKSLASH = CHR 0x5C"

text \<open>\<^verbatim>\<open>curdir = '.'\<close> and \<^verbatim>\<open>pardir = '..'\<close> of \<^verbatim>\<open>posixpath\<close>.\<close>

definition CURDIR :: string where
  "CURDIR = ''.''"

definition PARDIR :: string where
  "PARDIR = ''..''"

text \<open>\<^verbatim>\<open>s.lstrip(c)\<close> and \<^verbatim>\<open>s.rstrip(c)\<close> for a one-character argument.\<close>

definition lstrip :: "char \<Rightarrow> string \<Rightarrow> string" where
  "lstrip c s = dropWhile (\<lambda>x. x = c) s"

definition rstrip :: "char \<Rightarrow> string \<Rightarrow> string" where
  "rstrip c s = rev (dropWhile (\<lambda>x. x = c) (rev s))"

definition startswith :: "string \<Rightarrow> string \<Rightarrow> bool" where
  "startswith s p = (take (length p) s = p)"

definition endswith :: "string \<Rightarrow> string \<Rightarrow> bool" where
  "endswith s p = (length p \<le> length s \<and> drop (length s - length p) s = p)"

text \<open>\<^verbatim>\<open>s.split('/')\<close>: never empty, the pieces hold no separator.\<close>

fun split_sep :: "string \<Rightarrow> string list" where
  "split_sep [] = [[]]"
| "split_sep (c # cs) =
     (if c = SEP then [] # split_sep cs
      else (case split_sep cs of
              [] \<Rightarrow> [[c]]
            | w # ws \<Rightarrow> (c # w) # ws))"

text \<open>\<^verbatim>\<open>'/'.join(comps)\<close>.\<close>

fun join_sep :: "string list \<Rightarrow> string" where
  "join_sep [] = []"
| "join_sep [w] = w"
| "join_sep (w # v # ws) = w @ SEP # join_sep (v # ws)"

text \<open>\<^verbatim>\<open>str(n)\<close> for a non-negative integer.\<close>

definition digit_char :: "nat \<Rightarrow> char" where
  "digit_char d = char_of (48 + d)"

fun str_nat :: "nat \<Rightarrow> string" where
  "str_nat n = (if n < 10 then [digit_char n] else str_nat (n div 10) @ [digit_char (n mod 10)])"

declare str_nat.simps [simp del]

subsection \<open>posixpath\<close>

definition isabs :: "string \<Rightarrow> bool" where
  "isabs s = startswith s [SEP]"

text \<open>\<^verbatim>\<open>os.path.join(a, b)\<close>: an absolute second argument discards the first.\<close>

definition os_path_join :: "string \<Rightarrow> string \<Rightarrow> string" where
  "os_path_join a b =
     (if startswith b [SEP] then b
      else if a = [] \<or> endswith a [SEP] then a @ b
      else a @ SEP # b)"

text \<open>
  One round of the loop of \<^verbatim>\<open>normpath\<close> over the split components:
  \<^verbatim>\<open>
    if comp in ('', '.'): continue
    if (comp != '..' or (not initial_slashes and not new_comps) or
         (new_comps and new_comps[-1] == '..')):
        new_comps.append(comp)
    elif new_comps:
        new_comps.pop()
  \<close>
\<close>

definition normpath_step :: "nat \<Rightarrow> string list \<Rightarrow> string \<Rightarrow> string list" where
  "normpath_step initial_slashes new_comps seg =
     (if seg = [] \<or> seg = CURDIR then new_comps
      else if seg \<noteq> PARDIR \<or> (initial_slashes = 0 \<and> new_comps = [])
              \<or> (new_comps \<noteq> [] \<and> last new_comps = PARDIR)
           then new_comps @ [seg]
      else if new_comps \<noteq> [] then butlast new_comps
      else new_comps)"

definition initial_slashes_of :: "string \<Rightarrow> nat" where
  "initial_slashes_of p =
     (if startswith p [SEP] then
        (if startswith p [SEP, SEP] \<and> \<not> startswith p [SEP, SEP, SEP] then 2 else 1)
      else 0)"

definition normpath :: "string \<Rightarrow> string" where
  "normpath p =
     (if p = [] then CURDIR
      else
        let initial_slashes = initial_slashes_of p;
            comps = foldl (normpath_step initial_slashes) [] (split_sep p);
            q = replicate initial_slashes SEP @ join_sep comps
        in if q = [] then CURDIR else q)"

text \<open>\<^verbatim>\<open>os.path.abspath\<close>; the working directory is a parameter.\<close>

definition abspath :: "string \<Rightarrow> string \<Rightarrow> string" where
  "abspath cwd p = (if isabs p then normpath p else normpath (os_path_join cwd p))"

subsection \<open>Configuration and the path check\<close>

text \<open>
  The module constants: \<^verbatim>\<open>ALLOWED_BASE_PATH\<close> (read from the environment and resolved
  at start-up, so absolute), the working directory of the process, and the clock that
  stamps a written file. \<^verbatim>\<open>MAX_FILE_SIZE = 10 * 1024 * 1024\<close>.
\<close>

record config =
  ALLOWED_BASE_PATH :: string
  getcwd :: string
  time_now :: nat

definition MAX_FILE_SIZE :: nat where
  "MAX_FILE_SIZE = 10 * 1024 * 1024"

datatype py_exception =
    ValueError string
  | FileNotFoundError
  | FileExistsError
  | NotADirectoryError
  | IsADirectoryError
  | OSError
  | UnicodeDecodeError
  | UnicodeEncodeError

text \<open>
  \<^verbatim>\<open>str(e)\<close>. For a \<^verbatim>\<open>ValueError\<close> it is the message it was raised with. For the
  errors of the operating system and of the codec it is the fixed part of Python's
  message: the file name, the byte and the position that Python appends are left out.
\<close>

fun str_exc :: "py_exception \<Rightarrow> string" where
  "str_exc (ValueError m) = m"
| "str_exc FileNotFoundError = ''[Errno 2] No such file or directory''"
| "str_exc FileExistsError = ''[Errno 17] File exists''"
| "str_exc NotADirectoryError = ''[Errno 20] Not a directory''"
| "str_exc IsADirectoryError = ''[Errno 21] Is a directory''"
| "str_exc OSError = ''[Errno 6] No such device or address''"
| "str_exc UnicodeDecodeError = ''utf-8 codec cannot decode''"
| "str_exc UnicodeEncodeError = ''utf-8 codec cannot encode''"

text \<open>
  \<^verbatim>\<open>
  def sanitize_path(path: str) -> str:
      full_path = os.path.abspath(os.path.join(ALLOWED_BASE_PATH, path.lstrip("/").lstrip("\\")))
      if not full_path.startswith(ALLOWED_BASE_PATH):
          raise ValueError("Access outside allowed directory")
      return full_path
  \<close>
\<close>

definition sanitize_path :: "config \<Rightarrow> string \<Rightarrow> py_exception + string" where
  "sanitize_path cfg path =
     (let full_path = abspath (getcwd cfg)
            (os_path_join (ALLOWED_BASE_PATH cfg) (lstrip BACKSLASH (lstrip SEP path)))
      in if \<not> startswith full_path (ALLOWED_BASE_PATH cfg)
         then Inl (ValueError ''Access outside allowed directory'')
         else Inr full_path)"

subsection \<open>More of posixpath\<close>

text \<open>
  \<^verbatim>\<open>
  def dirname(p):
      i = p.rfind('/') + 1
      head = p[:i]
      if head and head != '/'*len(head):
          head = head.rstrip('/')
      return head
  \<close>
\<close>

definition dirname :: "string \<Rightarrow> string" where
  "dirname p =
     (let head = rev (dropWhile (\<lambda>x. x \<noteq> SEP) (rev p))
      in if head \<noteq> [] \<and> head \<noteq> replicate (length head) SEP then rstrip SEP head else head)"

text \<open>The non-empty pieces of a path: \<^verbatim>\<open>[x for x in p.split('/') if x]\<close>.\<close>

definition path_comps :: "string \<Rightarrow> string list" where
  "path_comps p = filter (\<lambda>x. x \<noteq> []) (split_sep p)"

fun commonprefix :: "'a list \<Rightarrow> 'a list \<Rightarrow> 'a list" where
  "commonprefix (x # xs) (y # ys) = (if x = y then x # commonprefix xs ys else [])"
| "commonprefix xs ys = []"

text \<open>
  \<^verbatim>\<open>os.path.relpath(path, start)\<close>. Its guard \<^verbatim>\<open>if not path: raise ValueError\<close> is
  left out: the one caller passes \<^verbatim>\<open>os.path.join(root, filename)\<close> with a non-empty
  \<open>root\<close>.
\<close>

definition relpath :: "string \<Rightarrow> string \<Rightarrow> string \<Rightarrow> string" where
  "relpath cwd p start =
     (let start_list = path_comps (abspath cwd start);
          path_list = path_comps (abspath cwd p);
          i = length (commonprefix start_list path_list);
          rel_list = replicate (length start_list - i) PARDIR @ drop i path_list
      in case rel_list of
           [] \<Rightarrow> CURDIR
         | a # rest \<Rightarrow> foldl os_path_join a rest)"

subsection \<open>The file system\<close>

text \<open>
  A tree. A regular file has a name, its bytes and its modification time (a float in
  Python, a number here, only carried along); a directory has a name and its entries in
  the order the system lists them. Two kinds of entry are neither: a socket, with a name
  and a time, which exists, has size 0 and cannot be opened; and a broken link, a
  symbolic link to a path in a directory that does not exist, so that every call that
  follows it finds nothing. Links to existing files or directories and permissions are
  not part of the tree, and it does not change during a call except through the call.
  The root node stands for \<open>/\<close>.
\<close>

datatype node =
    File string string nat
  | Dir string "node list"
  | Socket string nat
  | Broken string

fun node_name :: "node \<Rightarrow> string" where
  "node_name (File n _ _) = n"
| "node_name (Dir n _) = n"
| "node_name (Socket n _) = n"
| "node_name (Broken n) = n"

fun is_dir :: "node \<Rightarrow> bool" where
  "is_dir (File _ _ _) = False"
| "is_dir (Dir _ _) = True"
| "is_dir (Socket _ _) = False"
| "is_dir (Broken _) = False"

definition find_child :: "string \<Rightarrow> node list \<Rightarrow> node option" where
  "find_child c es = find (\<lambda>e. node_name e = c) es"

fun replace_child :: "string \<Rightarrow> node \<Rightarrow> node list \<Rightarrow> node list" where
  "replace_child c e' [] = []"
| "replace_child c e' (e # es) =
     (if node_name e = c then e' # es else e # replace_child c e' es)"

text \<open>Walking down from a node along the components of a path.\<close>

fun lookup :: "node \<Rightarrow> string list \<Rightarrow> node option" where
  "lookup e [] = Some e"
| "lookup (File _ _ _) (c # cs) = None"
| "lookup (Dir _ es) (c # cs) =
     (case find_child c es of None \<Rightarrow> None | Some e \<Rightarrow> lookup e cs)"
| "lookup (Socket _ _) (c # cs) = None"
| "lookup (Broken _) (c # cs) = None"

text \<open>
  What \<^verbatim>\<open>os.path.exists\<close>, \<^verbatim>\<open>isfile\<close>, \<^verbatim>\<open>isdir\<close> and \<^verbatim>\<open>getsize\<close> read of an
  absolute, normalised path: \<open>None\<close> when nothing is there, also at a broken link,
  which these calls follow.
\<close>

definition stat :: "node \<Rightarrow> string \<Rightarrow> node option" where
  "stat fs p =
     (case lookup fs (path_comps p) of
        None \<Rightarrow> None
      | Some (Broken n) \<Rightarrow> None
      | Some e \<Rightarrow> Some e)"

text \<open>
  \<^verbatim>\<open>os.makedirs(name, exist_ok=True)\<close>: missing directories are created along the path;
  an entry on the way, or at its end, that is not a directory is an error, raised before
  anything is created.
\<close>

fun mkdirs :: "string list \<Rightarrow> node \<Rightarrow> py_exception + node" where
  "mkdirs [] (Dir n es) = Inr (Dir n es)"
| "mkdirs [] (File n d t) = Inl FileExistsError"
| "mkdirs (c # cs) (File n d t) = Inl NotADirectoryError"
| "mkdirs (c # cs) (Dir n es) =
     (case find_child c es of
        None \<Rightarrow>
          (case mkdirs cs (Dir c []) of
             Inl e \<Rightarrow> Inl e
           | Inr d \<Rightarrow> Inr (Dir n (es @ [d])))
      | Some ch \<Rightarrow>
          (case mkdirs cs ch of
             Inl e \<Rightarrow> Inl e
           | Inr ch' \<Rightarrow> Inr (Dir n (replace_child c ch' es))))"
| "mkdirs [] (Socket n t) = Inl FileExistsError"
| "mkdirs (c # cs) (Socket n t) = Inl NotADirectoryError"
| "mkdirs [] (Broken n) = Inl FileExistsError"
| "mkdirs (c # cs) (Broken n) = Inl FileNotFoundError"

definition makedirs :: "node \<Rightarrow> string \<Rightarrow> py_exception + node" where
  "makedirs fs p = mkdirs (path_comps p) fs"

text \<open>
  \<^verbatim>\<open>open(p, 'w')\<close> followed by writing \<open>d\<close> and closing, at time \<open>t\<close>: the file is
  created in an existing directory, or its bytes are replaced. A socket cannot be
  opened, and the target of a broken link cannot be created.
\<close>

fun store :: "string list \<Rightarrow> string \<Rightarrow> nat \<Rightarrow> node \<Rightarrow> py_exception + node" where
  "store [] d t (File n _ _) = Inr (File n d t)"
| "store [] d t (Dir n es) = Inl IsADirectoryError"
| "store (c # cs) d t (File n _ _) = Inl NotADirectoryError"
| "store (c # cs) d t (Dir n es) =
     (case find_child c es of
        None \<Rightarrow> (if cs = [] then Inr (Dir n (es @ [File c d t])) else Inl FileNotFoundError)
      | Some ch \<Rightarrow>
          (case store cs d t ch of
             Inl e \<Rightarrow> Inl e
           | Inr ch' \<Rightarrow> Inr (Dir n (replace_child c ch' es))))"
| "store [] d t (Socket n m) = Inl OSError"
| "store (c # cs) d t (Socket n m) = Inl NotADirectoryError"
| "store [] d t (Broken n) = Inl FileNotFoundError"
| "store (c # cs) d t (Broken n) = Inl FileNotFoundError"

definition open_w :: "node \<Rightarrow> string \<Rightarrow> string \<Rightarrow> nat \<Rightarrow> py_exception + node" where
  "open_w fs p d t = store (path_comps p) d t fs"

text \<open>
  \<^verbatim>\<open>os.walk(top)\<close>, top-down, not following links: for each directory its path, the
  names of its sub-directories and, as \<open>filenames\<close>, every other entry (regular files,
  sockets and broken links alike), then the walks of the sub-directories in listing
  order. An entry of \<open>filenames\<close> is listed with its name and with what
  \<^verbatim>\<open>os.path.getsize\<close> and \<^verbatim>\<open>os.path.getmtime\<close> do at
  \<^verbatim>\<open>os.path.join(root, filename)\<close>: they return its size in bytes and its time, or
  they raise, as they do at a broken link.
\<close>

type_synonym file_entry = "string \<times> (py_exception + nat \<times> nat)"

fun file_entries :: "node list \<Rightarrow> file_entry list" where
  "file_entries [] = []"
| "file_entries (File n d t # es) = (n, Inr (length d, t)) # file_entries es"
| "file_entries (Dir n ds # es) = file_entries es"
| "file_entries (Socket n t # es) = (n, Inr (0, t)) # file_entries es"
| "file_entries (Broken n # es) = (n, Inl FileNotFoundError) # file_entries es"

fun os_walk :: "string \<Rightarrow> node \<Rightarrow> (string \<times> string list \<times> file_entry list) list" where
  "os_walk tp (File n d t) = []"
| "os_walk tp (Dir n es) =
     (tp, map node_name (filter is_dir es), file_entries es)
     # concat (map (\<lambda>e. if is_dir e then os_walk (os_path_join tp (node_name e)) e else []) es)"
| "os_walk tp (Socket n t) = []"
| "os_walk tp (Broken n) = []"

subsection \<open>Text files\<close>

text \<open>
  A Python \<open>str\<close> is held as its UTF-8 encoding, so that its length is the size of the
  file that stores it; a \<open>str\<close> that cannot be encoded (it holds a lone surrogate) is a
  byte string that is not well-formed UTF-8. \<open>utf8_ok\<close> is the strict decoder of
  \<^verbatim>\<open>encoding='utf-8'\<close> as an automaton: \<open>k\<close> continuation bytes are still due and the
  next one lies between \<open>lo\<close> and \<open>hi\<close>.
\<close>

fun utf8_ok :: "nat \<Rightarrow> nat \<Rightarrow> nat \<Rightarrow> string \<Rightarrow> bool" where
  "utf8_ok k lo hi [] = (k = 0)"
| "utf8_ok k lo hi (b # bs) =
     (let x = (of_char b :: nat) in
      if k = 0 then
        (if x < 0x80 then utf8_ok 0 0x80 0xBF bs
         else if 0xC2 \<le> x \<and> x \<le> 0xDF then utf8_ok 1 0x80 0xBF bs
         else if x = 0xE0 then utf8_ok 2 0xA0 0xBF bs
         else if x = 0xED then utf8_ok 2 0x80 0x9F bs
         else if 0xE1 \<le> x \<and> x \<le> 0xEF then utf8_ok 2 0x80 0xBF bs
         else if x = 0xF0 then utf8_ok 3 0x90 0xBF bs
         else if 0xF1 \<le> x \<and> x \<le> 0xF3 then utf8_ok 3 0x80 0xBF bs
         else if x = 0xF4 then utf8_ok 3 0x80 0x8F bs
         else False)
      else if lo \<le> x \<and> x \<le> hi then utf8_ok (k - 1) 0x80 0xBF bs
      else False)"

definition valid_utf8 :: "string \<Rightarrow> bool" where
  "valid_utf8 bs = utf8_ok 0 0x80 0xBF bs"

definition CR :: char where
  "CR = CHR 0x0D"

definition LF :: char where
  "LF = CHR 0x0A"

text \<open>
  Reading in text mode with the default \<^verbatim>\<open>newline=None\<close>: \<open>\r\n\<close> and a lone \<open>\r\<close>
  come back as \<open>\n\<close>. The flag says that the character before was a \<open>\r\<close>. (Writing in
  text mode turns \<open>\n\<close> into \<^verbatim>\<open>os.linesep\<close>, which is \<open>\n\<close> itself here.)
\<close>

fun universal_newlines :: "bool \<Rightarrow> string \<Rightarrow> string" where
  "universal_newlines after_cr [] = []"
| "universal_newlines after_cr (c # cs) =
     (if c = CR then LF # universal_newlines True cs
      else if c = LF \<and> after_cr then universal_newlines False cs
      else c # universal_newlines False cs)"

text \<open>\<^verbatim>\<open>with open(p, 'r', encoding='utf-8') as f: content = f.read()\<close> on the bytes of a file.\<close>

definition read_text :: "string \<Rightarrow> py_exception + string" where
  "read_text bs = (if valid_utf8 bs then Inr (universal_newlines False bs) else Inl UnicodeDecodeError)"

subsection \<open>Requests, responses and the request context\<close>

text \<open>
  The pydantic models (the fields are \<open>path\<close> and \<open>content\<close> in the source), the
  dictionaries handed to \<^verbatim>\<open>json.dumps\<close>, and the calls on \<open>ctx\<close>.
\<close>

record FileOperation =
  op_path :: string
  op_content :: "string option"

record FolderAnalysis =
  folder_path :: string

datatype json =
    JStr string
  | JNum nat
  | JArr "json list"
  | JObj "(string \<times> json) list"

fun json_get :: "json \<Rightarrow> string \<Rightarrow> json option" where
  "json_get (JObj kvs) k = map_of kvs k"
| "json_get j k = None"

text \<open>The keys of a dictionary, in order.\<close>

definition json_keys :: "json \<Rightarrow> string list" where
  "json_keys j = (case j of JObj kvs \<Rightarrow> map fst kvs | _ \<Rightarrow> [])"

datatype event =
    CtxInfo string
  | CtxError string
  | ReportProgress nat nat

definition error_response :: "string \<Rightarrow> json" where
  "error_response m = JObj [(''status'', JStr ''error''), (''message'', JStr m)]"

subsection \<open>file_read\<close>

definition file_read :: "config \<Rightarrow> node \<Rightarrow> FileOperation \<Rightarrow> json \<times> event list" where
  "file_read cfg fs opn =
     (let ev0 = [CtxInfo (''Attempting to read file: '' @ op_path opn)] in
      case sanitize_path cfg (op_path opn) of
        Inl e \<Rightarrow>
          (error_response (str_exc e),
           ev0 @ [CtxError (''Error reading file '' @ op_path opn @ '': '' @ str_exc e)])
      | Inr safe_path \<Rightarrow>
          (case stat fs safe_path of
             None \<Rightarrow>
               (error_response ''File not found'',
                ev0 @ [CtxError (''File not found: '' @ op_path opn)])
           | Some (Broken n) \<Rightarrow>
               (error_response ''File not found'',
                ev0 @ [CtxError (''File not found: '' @ op_path opn)])
           | Some (Dir n es) \<Rightarrow>
               (error_response ''Path is not a file'',
                ev0 @ [CtxError (''Path is not a file: '' @ op_path opn)])
           | Some (Socket n t) \<Rightarrow>
               (error_response ''Path is not a file'',
                ev0 @ [CtxError (''Path is not a file: '' @ op_path opn)])
           | Some (File n bs t) \<Rightarrow>
               (let file_size = length bs in
                if file_size > MAX_FILE_SIZE then
                  (error_response ''File too large'',
                   ev0 @ [CtxError (''File too large: '' @ str_nat file_size @ '' bytes'')])
                else
                  (case read_text bs of
                     Inl e \<Rightarrow>
                       (error_response (str_exc e),
                        ev0 @ [ReportProgress 50 100,
                               CtxError (''Error reading file '' @ op_path opn @ '': '' @ str_exc e)])
                   | Inr content \<Rightarrow>
                       (JObj [(''status'', JStr ''success''),
                              (''path'', JStr (op_path opn)),
                              (''content'', JStr content)],
                        ev0 @ [ReportProgress 50 100, ReportProgress 100 100])))))"

subsection \<open>file_write\<close>

text \<open>
  \<^verbatim>\<open>if not op.content\<close> holds for \<open>None\<close> and for the empty string. A step that raises
  after the file system was changed leaves the change: \<^verbatim>\<open>open(safe_path, 'w')\<close> has
  emptied the file when \<^verbatim>\<open>f.write\<close> cannot encode the content.
\<close>

definition content_required :: "node \<Rightarrow> event list \<Rightarrow> json \<times> node \<times> event list" where
  "content_required fs evs =
     (error_response ''Content is required'', fs,
      evs @ [CtxError ''Content is required for file write''])"

definition write_failed ::
  "string \<Rightarrow> py_exception \<Rightarrow> node \<Rightarrow> event list \<Rightarrow> json \<times> node \<times> event list" where
  "write_failed p e fs evs =
     (error_response (str_exc e), fs,
      evs @ [CtxError (''Error writing file '' @ p @ '': '' @ str_exc e)])"

text \<open>From \<^verbatim>\<open>safe_path = sanitize_path(op.path)\<close> on, with a content that is there.\<close>

definition write_content ::
  "config \<Rightarrow> node \<Rightarrow> string \<Rightarrow> string \<Rightarrow> event list \<Rightarrow> json \<times> node \<times> event list" where
  "write_content cfg fs p content ev0 =
     (case sanitize_path cfg p of
        Inl e \<Rightarrow> write_failed p e fs ev0
      | Inr safe_path \<Rightarrow>
          (case makedirs fs (dirname safe_path) of
             Inl e \<Rightarrow> write_failed p e fs ev0
           | Inr fs1 \<Rightarrow>
               (let ev1 = ev0 @ [ReportProgress 50 100] in
                case open_w fs1 safe_path [] (time_now cfg) of
                  Inl e \<Rightarrow> write_failed p e fs1 ev1
                | Inr fs2 \<Rightarrow>
                    if \<not> valid_utf8 content then write_failed p UnicodeEncodeError fs2 ev1
                    else
                      (case open_w fs2 safe_path content (time_now cfg) of
                         Inl e \<Rightarrow> write_failed p e fs2 ev1
                       | Inr fs3 \<Rightarrow>
                           (JObj [(''status'', JStr ''success''),
                                  (''path'', JStr p),
                                  (''message'', JStr ''File written successfully'')],
                            fs3,
                            ev1 @ [ReportProgress 100 100])))))"

definition file_write :: "config \<Rightarrow> node \<Rightarrow> FileOperation \<Rightarrow> json \<times> node \<times> event list" where
  "file_write cfg fs opn =
     (let ev0 = [CtxInfo (''Attempting to write file: '' @ op_path opn)] in
      case op_content opn of
        None \<Rightarrow> content_required fs ev0
      | Some content \<Rightarrow>
          if content = [] then content_required fs ev0
          else write_content cfg fs (op_path opn) content ev0)"

subsection \<open>folder_analysis\<close>

text \<open>
  The three accumulators of the loop, the calls on \<open>ctx\<close> so far, and the exception that
  ended the loop, if one was raised: nothing is done after it.
\<close>

record walk_state =
  files :: "json list"
  total_size :: nat
  file_count :: nat
  events :: "event list"
  raised :: "py_exception option"

definition file_info :: "config \<Rightarrow> string \<Rightarrow> string \<Rightarrow> nat \<Rightarrow> nat \<Rightarrow> json" where
  "file_info cfg root filename file_size mtime =
     JObj [(''name'', JStr filename),
           (''path'', JStr (relpath (getcwd cfg) (os_path_join root filename) (ALLOWED_BASE_PATH cfg))),
           (''size'', JNum file_size),
           (''modified'', JNum mtime)]"

text \<open>
  The body of \<^verbatim>\<open>for i, filename in enumerate(filenames)\<close> for the directory \<open>root\<close>
  with \<open>n = len(filenames)\<close>, from index \<open>i\<close> on. \<^verbatim>\<open>os.path.getsize(file_path)\<close> is the
  first call of the body that can raise.
\<close>

fun scan_filenames ::
  "config \<Rightarrow> string \<Rightarrow> nat \<Rightarrow> nat \<Rightarrow> file_entry list \<Rightarrow> walk_state \<Rightarrow> walk_state" where
  "scan_filenames cfg root n i [] st = st"
| "scan_filenames cfg root n i (f # fs) st =
     (case snd f of
        Inl e \<Rightarrow> st\<lparr>raised := Some e\<rparr>
      | Inr sm \<Rightarrow>
          (let file_size = fst sm;
               st1 = st\<lparr>total_size := total_size st + file_size,
                        file_count := file_count st + 1,
                        files := files st @ [file_info cfg root (fst f) file_size (snd sm)]\<rparr>;
               st2 = (if (i + 1) mod 10 = 0
                      then st1\<lparr>events := events st1 @ [ReportProgress (min 90 ((i + 1) * 90 div n)) 100]\<rparr>
                      else st1)
           in scan_filenames cfg root n (i + 1) fs st2))"

text \<open>One round of \<^verbatim>\<open>for root, _, filenames in os.walk(safe_path)\<close>.\<close>

definition scan_dir ::
  "config \<Rightarrow> walk_state \<Rightarrow> string \<times> string list \<times> file_entry list \<Rightarrow> walk_state" where
  "scan_dir cfg st w =
     (case raised st of
        Some e \<Rightarrow> st
      | None \<Rightarrow>
          (case w of (root, dirs, filenames) \<Rightarrow>
             scan_filenames cfg root (length filenames) 0 filenames st))"

definition folder_analysis :: "config \<Rightarrow> node \<Rightarrow> FolderAnalysis \<Rightarrow> json \<times> event list" where
  "folder_analysis cfg fs folder =
     (let ev0 = [CtxInfo (''Analyzing folder: '' @ folder_path folder)] in
      case sanitize_path cfg (folder_path folder) of
        Inl e \<Rightarrow>
          (error_response (str_exc e),
           ev0 @ [CtxError (''Error analyzing folder '' @ folder_path folder @ '': '' @ str_exc e)])
      | Inr safe_path \<Rightarrow>
          (case stat fs safe_path of
             None \<Rightarrow>
               (error_response ''Folder not found'',
                ev0 @ [CtxError (''Folder not found: '' @ folder_path folder)])
           | Some (Broken n) \<Rightarrow>
               (error_response ''Folder not found'',
                ev0 @ [CtxError (''Folder not found: '' @ folder_path folder)])
           | Some (File n bs t) \<Rightarrow>
               (error_response ''Path is not a directory'',
                ev0 @ [CtxError (''Path is not a directory: '' @ folder_path folder)])
           | Some (Socket n t) \<Rightarrow>
               (error_response ''Path is not a directory'',
                ev0 @ [CtxError (''Path is not a directory: '' @ folder_path folder)])
           | Some (Dir n es) \<Rightarrow>
               (let st0 = \<lparr>files = [], total_size = 0, file_count = 0,
                           events = ev0 @ [ReportProgress 0 100], raised = None\<rparr>;
                    st = foldl (scan_dir cfg) st0 (os_walk safe_path (Dir n es))
                in case raised st of
                     Some e \<Rightarrow>
                       (error_response (str_exc e),
                        events st @ [CtxError (''Error analyzing folder '' @ folder_path folder
                                                 @ '': '' @ str_exc e)])
                   | None \<Rightarrow>
                       (JObj [(''status'', JStr ''success''),
                              (''path'', JStr (folder_path folder)),
                              (''file_count'', JNum (file_count st)),
                              (''total_size'', JNum (total_size st)),
                              (''files'', JArr (take 50 (files st))),
                              (''message'', JStr ''Folder analysis completed'')],
                        events st @ [ReportProgress 100 100]))))"

text \<open>The values of the progress calls among the events, in order.\<close>

fun progress_values :: "event list \<Rightarrow> nat list" where
  "progress_values [] = []"
| "progress_values (ReportProgress cur tot # evs) = cur # progress_values evs"
| "progress_values (e # evs) = progress_values evs"

subsection \<open>What the specification measures against\<close>

text \<open>
  The regular files that are really under a node, counted and weighed on the tree
  itself; the entries under it that are neither a regular file nor a directory; and
  whether every entry under it can be read by \<^verbatim>\<open>os.path.getsize\<close>, which is so when
  no broken link is among them.
\<close>

fun count_files :: "node \<Rightarrow> nat" where
  "count_files (File n bs t) = 1"
| "count_files (Dir n es) = sum_list (map count_files es)"
| "count_files (Socket n t) = 0"
| "count_files (Broken n) = 0"


fun count_special :: "node \<Rightarrow> nat" where
  "count_special (File n bs t) = 0"
| "count_special (Dir n es) = sum_list (map count_special es)"
| "count_special (Socket n t) = 1"
| "count_special (Broken n) = 1"

fun readable :: "node \<Rightarrow> bool" where
  "readable (File n bs t) = True"
| "readable (Dir n es) = list_all readable es"
| "readable (Socket n t) = True"
| "readable (Broken n) = False"

text \<open>
  The listing of a walk: every entry of \<open>filenames\<close> that can be read, of every
  directory, in the order of the walk.
\<close>

definition entry_info :: "config \<Rightarrow> string \<Rightarrow> file_entry \<Rightarrow> json list" where
  "entry_info cfg root f =
     (case snd f of
        Inl e \<Rightarrow> []
      | Inr sm \<Rightarrow> [file_info cfg root (fst f) (fst sm) (snd sm)])"

definition walk_listing :: "config \<Rightarrow> string \<Rightarrow> node \<Rightarrow> json list" where
  "walk_listing cfg tp d =
     concat (map (\<lambda>w. concat (map (entry_info cfg (fst w)) (snd (snd w)))) (os_walk tp d))"

text \<open>The progress values that the loop over one directory of the walk reports.\<close>

definition dir_ticks :: "config \<Rightarrow> string \<times> string list \<times> file_entry list \<Rightarrow> nat list" where
  "dir_ticks cfg w =
     progress_values (events (scan_dir cfg
        \<lparr>files = [], total_size = 0, file_count = 0, events = [], raised = None\<rparr> w))"

text \<open>Whether \<^verbatim>\<open>os.path.getsize\<close> returns at an entry of \<open>filenames\<close>.\<close>

definition entry_ok :: "file_entry \<Rightarrow> bool" where
  "entry_ok f = (case snd f of Inl e \<Rightarrow> False | Inr sm \<Rightarrow> True)"


text \<open>The input of the path check joined onto the root.\<close>

definition joined :: "config \<Rightarrow> string \<Rightarrow> string" where
  "joined cfg p = os_path_join (ALLOWED_BASE_PATH cfg) (lstrip BACKSLASH (lstrip SEP p))"

text \<open>
  The resolver as the specification words it: strip the leading separators, join onto
  the root, make the result canonical (\<open>.\<close>, \<open>..\<close> and symbolic links resolved), and
  admit it when the components of the root are a prefix of its components. Symbolic
  links are a table from the components of a link to the components of its absolute
  target; a chain of more than \<open>fuel\<close> links is refused.
\<close>

type_synonym symlinks = "(string list \<times> string list) list"

fun canonicalize :: "nat \<Rightarrow> symlinks \<Rightarrow> string list \<Rightarrow> string list \<Rightarrow> string list option" where
  "canonicalize fuel links acc [] = Some acc"
| "canonicalize fuel links acc (c # cs) =
     (if c = [] \<or> c = CURDIR then canonicalize fuel links acc cs
      else if c = PARDIR then canonicalize fuel links (butlast acc) cs
      else (case map_of links (acc @ [c]) of
              None \<Rightarrow> canonicalize fuel links (acc @ [c]) cs
            | Some target \<Rightarrow>
                (case fuel of
                   0 \<Rightarrow> None
                 | Suc k \<Rightarrow> canonicalize k links [] (target @ cs))))"

definition spec_resolve :: "symlinks \<Rightarrow> string \<Rightarrow> string \<Rightarrow> py_exception + string list" where
  "spec_resolve links root rel =
     (case canonicalize 40 links [] (split_sep (os_path_join root (lstrip SEP rel))) of
        None \<Rightarrow> Inl (ValueError ''Access outside allowed directory'')
      | Some comps \<Rightarrow>
          if prefix (path_comps root) comps then Inr comps
          else Inl (ValueError ''Access outside allowed directory''))"

text \<open>A path component that names an entry: not empty, not \<open>.\<close>, not \<open>..\<close>, no separator.\<close>

definition plain_name :: "string \<Rightarrow> bool" where
  "plain_name w = (w \<noteq> [] \<and> w \<noteq> CURDIR \<and> w \<noteq> PARDIR \<and> SEP \<notin> set w)"

subsection \<open>Concrete configurations and trees\<close>

definition cfg_allowed :: config where
  "cfg_allowed = \<lparr>ALLOWED_BASE_PATH = ''/allowed'', getcwd = ''/'', time_now = 7\<rparr>"

definition fs_empty :: node where
  "fs_empty = Dir [] [Dir ''allowed'' []]"

definition big_file :: "char \<Rightarrow> nat \<Rightarrow> node" where
  "big_file c k = Dir [] [Dir ''allowed'' [File ''big'' (replicate k c) 0]]"

definition fs_notes :: "node list \<Rightarrow> node" where
  "fs_notes es = Dir [] [Dir ''allowed'' [Dir ''notes'' es]]"

definition numbered_files :: "nat \<Rightarrow> node list" where
  "numbered_files k = map (\<lambda>i. File (CHR ''f'' # str_nat i) ''x'' i) [0..<k]"

section \<open>Properties\<close>

lemma split_sep_nonempty: "split_sep s \<noteq> []"
  by (induction s) (auto split: list.splits)

subsection \<open>The file system after a write\<close>






lemma universal_newlines_id: "CR \<notin> set s \<Longrightarrow> universal_newlines False s = s"
  by (induction s) auto



lemma file_read_file:
  assumes "sanitize_path cfg (op_path opn) = Inr sp" and "stat fs sp = Some (File n bs t)"
  shows "fst (file_read cfg fs opn) =
     (if length bs > MAX_FILE_SIZE then error_response ''File too large''
      else case read_text bs of
             Inl e \<Rightarrow> error_response (str_exc e)
           | Inr content \<Rightarrow>
               JObj [(''status'', JStr ''success''), (''path'', JStr (op_path opn)),
                     (''content'', JStr content)])"
  unfolding file_read_def Let_def using assms
  by (simp split: sum.splits)

subsection \<open>Writing and reading back\<close>






text \<open>
  A carriage return does not come back either: the file holds it, and reading in text
  mode returns a line feed in its place.
\<close>

lemma write_carriage_return:
  "fst (snd (file_write cfg_allowed fs_empty
               \<lparr>op_path = ''a.txt'', op_content = Some [CHR ''a'', CR, CHR ''b'']\<rparr>))
   = Dir [] [Dir ''allowed'' [File ''a.txt'' [CHR ''a'', CR, CHR ''b''] 7]]"
  by code_simp

lemma carriage_return_read_back_as_newline:
  "fst (file_read cfg_allowed
         (fst (snd (file_write cfg_allowed fs_empty
                      \<lparr>op_path = ''a.txt'', op_content = Some [CHR ''a'', CR, CHR ''b'']\<rparr>)))
         \<lparr>op_path = ''a.txt'', op_content = None\<rparr>)
     = JObj [(''status'', JStr ''success''), (''path'', JStr ''a.txt''),
             (''content'', JStr [CHR ''a'', LF, CHR ''b''])]"
proof -
  have s: "sanitize_path cfg_allowed (op_path \<lparr>op_path = ''a.txt'', op_content = None\<rparr>)
           = Inr ''/allowed/a.txt''"
    by code_simp
  have st: "stat (Dir [] [Dir ''allowed'' [File ''a.txt'' [CHR ''a'', CR, CHR ''b''] 7]])
              ''/allowed/a.txt''
            = Some (File ''a.txt'' [CHR ''a'', CR, CHR ''b''] 7)"
    by code_simp
  have r: "read_text [CHR ''a'', CR, CHR ''b''] = Inr [CHR ''a'', LF, CHR ''b'']"
    by code_simp
  show ?thesis
    unfolding write_carriage_return file_read_file [OF s st] r
    by (simp add: MAX_FILE_SIZE_def)
qed

subsection \<open>The size limit of a read\<close>

lemma ascii_utf8_ok: "\<forall>c \<in> set s. (of_char c :: nat) < 0x80 \<Longrightarrow> utf8_ok 0 lo hi s"
  by (induction s arbitrary: lo hi) (auto simp: Let_def)

lemma utf8_bad_start: "(of_char c :: nat) = 0xFF \<Longrightarrow> \<not> utf8_ok 0 lo hi (c # s)"
  by (simp add: Let_def)

lemma sanitize_big: "sanitize_path cfg_allowed ''big'' = Inr ''/allowed/big''"
  by code_simp

lemma comps_big: "path_comps ''/allowed/big'' = [''allowed'', ''big'']"
  by code_simp

lemma stat_big: "stat (big_file c k) ''/allowed/big'' = Some (File ''big'' (replicate k c) 0)"
  by (simp add: stat_def comps_big big_file_def find_child_def)

lemma replicate_big_unfold: "replicate 10485760 c = c # replicate 10485759 c"
proof -
  have "(10485760::nat) = Suc 10485759" by simp
  then show ?thesis by (simp only: replicate_Suc)
qed

lemma big_invalid: "\<not> valid_utf8 (replicate 10485760 (CHR 0xFF))"
  unfolding valid_utf8_def replicate_big_unfold by (rule utf8_bad_start) simp

text \<open>
  C7, as amended. For a path that passes the check and names a regular file: when the
  file is at most \<open>MAX_FILE_SIZE\<close> bytes long (so also when it is exactly that long) and
  its bytes are well-formed UTF-8, the read succeeds and returns its text; when it is
  \<open>MAX_FILE_SIZE + 1\<close> bytes long or longer, the read fails with \<open>File too large\<close>.
\<close>

theorem read_size_boundary:
  assumes "sanitize_path cfg (op_path opn) = Inr sp" and "stat fs sp = Some (File n bs t)"
  shows "(length bs \<le> MAX_FILE_SIZE \<and> valid_utf8 bs \<longrightarrow>
            fst (file_read cfg fs opn)
            = JObj [(''status'', JStr ''success''), (''path'', JStr (op_path opn)),
                    (''content'', JStr (universal_newlines False bs))])
       \<and> (MAX_FILE_SIZE + 1 \<le> length bs \<longrightarrow>
            fst (file_read cfg fs opn) = error_response ''File too large'')"
  unfolding file_read_file [OF assms] by (simp add: read_text_def)

theorem read_size_boundary_witness:
  "fst (file_read cfg_allowed (big_file (CHR ''a'') 10485760) \<lparr>op_path = ''big'', op_content = None\<rparr>)
     = JObj [(''status'', JStr ''success''), (''path'', JStr ''big''),
             (''content'', JStr (replicate 10485760 (CHR ''a'')))]
   \<and> fst (file_read cfg_allowed (big_file (CHR ''a'') 10485761) \<lparr>op_path = ''big'', op_content = None\<rparr>)
     = error_response ''File too large''"
proof -
  let ?op = "\<lparr>op_path = ''big'', op_content = None\<rparr>"
  have s: "sanitize_path cfg_allowed (op_path ?op) = Inr ''/allowed/big''"
    by (simp add: sanitize_big)
  have v: "valid_utf8 (replicate 10485760 (CHR ''a''))"
    unfolding valid_utf8_def by (rule ascii_utf8_ok) simp
  have u: "universal_newlines False (replicate 10485760 (CHR ''a'')) = replicate 10485760 (CHR ''a'')"
    by (rule universal_newlines_id) (simp add: CR_def)
  have l1: "length (replicate 10485760 (CHR ''a'')) \<le> MAX_FILE_SIZE"
    by (simp only: length_replicate MAX_FILE_SIZE_def)
  have l2: "MAX_FILE_SIZE + 1 \<le> length (replicate 10485761 (CHR ''a''))"
    by (simp only: length_replicate MAX_FILE_SIZE_def)
  from read_size_boundary [OF s stat_big [of "CHR ''a''" 10485760]] l1 v u
  have a: "fst (file_read cfg_allowed (big_file (CHR ''a'') 10485760) ?op)
     = JObj [(''status'', JStr ''success''), (''path'', JStr ''big''),
             (''content'', JStr (replicate 10485760 (CHR ''a'')))]"
    by (simp only: FileOperation.select_convs simp_thms)
  from read_size_boundary [OF s stat_big [of "CHR ''a''" 10485761]] l2
  have b: "fst (file_read cfg_allowed (big_file (CHR ''a'') 10485761) ?op)
     = error_response ''File too large''"
    by (simp only: simp_thms)
  from a b show ?thesis by (rule conjI)
qed

text \<open>
  The claim as it was stated fails for a regular file of exactly \<open>MAX_FILE_SIZE\<close> bytes
  that is not UTF-8 text: it passes the size check and the read fails in the decoder.
\<close>

theorem undecodable_file_of_max_size:
  "length (replicate 10485760 (CHR 0xFF)) = MAX_FILE_SIZE
   \<and> fst (file_read cfg_allowed (big_file (CHR 0xFF) 10485760) \<lparr>op_path = ''big'', op_content = None\<rparr>)
     = error_response ''utf-8 codec cannot decode''"
proof -
  have s: "sanitize_path cfg_allowed (op_path \<lparr>op_path = ''big'', op_content = None\<rparr>)
           = Inr ''/allowed/big''"
    by (simp add: sanitize_big)
  have l: "length (replicate 10485760 (CHR 0xFF)) = MAX_FILE_SIZE"
    by (simp only: length_replicate MAX_FILE_SIZE_def)
  have r: "read_text (replicate 10485760 (CHR 0xFF)) = Inl UnicodeDecodeError"
    by (simp only: read_text_def big_invalid if_False)
  show ?thesis
    unfolding file_read_file [OF s stat_big]
    by (simp only: l r less_irrefl if_False sum.case str_exc.simps simp_thms)
qed

subsection \<open>The content of a write\<close>

text \<open>
  C8. A write whose content is absent or empty fails with \<open>Content is required\<close>; the
  file system is returned as it was, and nothing but the attempt and this error is
  logged.
\<close>

theorem content_required_for_write:
  assumes "op_content opn = None \<or> op_content opn = Some []"
  shows "file_write cfg fs opn
         = (error_response ''Content is required'', fs,
            [CtxInfo (''Attempting to write file: '' @ op_path opn),
             CtxError ''Content is required for file write''])"
  using assms by (auto simp: file_write_def content_required_def)

theorem content_required_for_write_witness:
  "file_write cfg_allowed (big_file (CHR ''a'') 3) \<lparr>op_path = ''big'', op_content = Some []\<rparr>
   = (error_response ''Content is required'', big_file (CHR ''a'') 3,
      [CtxInfo ''Attempting to write file: big'', CtxError ''Content is required for file write''])
   \<and> file_write cfg_allowed (big_file (CHR ''a'') 3) \<lparr>op_path = ''big'', op_content = None\<rparr>
   = (error_response ''Content is required'', big_file (CHR ''a'') 3,
      [CtxInfo ''Attempting to write file: big'', CtxError ''Content is required for file write''])"
  using content_required_for_write
          [of "\<lparr>op_path = ''big'', op_content = Some []\<rparr>" cfg_allowed "big_file (CHR ''a'') 3"]
        content_required_for_write
          [of "\<lparr>op_path = ''big'', op_content = None\<rparr>" cfg_allowed "big_file (CHR ''a'') 3"]
  by simp

lemma sanitize_path_error:
  "sanitize_path cfg p = Inl e \<Longrightarrow> e = ValueError ''Access outside allowed directory''"
  by (auto simp: sanitize_path_def Let_def split: if_splits)

lemma sanitize_escape: "sanitize_path cfg_allowed ''../etc/passwd''
   = Inl (ValueError ''Access outside allowed directory'')"
  by code_simp

text \<open>
  C10. The content is checked before the path: a write whose content is absent or empty
  and whose path does not pass \<open>sanitize_path\<close> fails with \<open>Content is required\<close>, not
  with the error of the path check; the error of the path check is not logged, and the
  outcome is the same under every configuration, so no path was resolved.
\<close>

theorem content_check_before_path_check:
  assumes "op_content opn = None \<or> op_content opn = Some []"
    and "sanitize_path cfg (op_path opn) = Inl e"
  shows "fst (file_write cfg fs opn) = error_response ''Content is required''
       \<and> fst (file_write cfg fs opn) \<noteq> error_response (str_exc e)
       \<and> snd (snd (file_write cfg fs opn))
           = [CtxInfo (''Attempting to write file: '' @ op_path opn),
              CtxError ''Content is required for file write'']
       \<and> file_write cfg' fs opn = file_write cfg fs opn"
proof -
  have e: "str_exc e = ''Access outside allowed directory''"
    using sanitize_path_error [OF assms(2)] by simp
  have w: "file_write c fs opn = content_required fs [CtxInfo (''Attempting to write file: '' @ op_path opn)]"
    for c
    using assms(1) by (auto simp: file_write_def)
  show ?thesis
    unfolding w e by (simp add: content_required_def error_response_def)
qed

theorem content_check_before_path_check_witness:
  "sanitize_path cfg_allowed ''../etc/passwd'' = Inl (ValueError ''Access outside allowed directory'')
   \<and> fst (file_write cfg_allowed fs_empty \<lparr>op_path = ''../etc/passwd'', op_content = Some []\<rparr>)
     = error_response ''Content is required''
   \<and> snd (snd (file_write cfg_allowed fs_empty \<lparr>op_path = ''../etc/passwd'', op_content = Some []\<rparr>))
     = [CtxInfo ''Attempting to write file: ../etc/passwd'',
        CtxError ''Content is required for file write'']"
proof -
  let ?op = "\<lparr>op_path = ''../etc/passwd'', op_content = Some []\<rparr>"
  have c: "op_content ?op = None \<or> op_content ?op = Some []" by simp
  have p: "sanitize_path cfg_allowed (op_path ?op) = Inl (ValueError ''Access outside allowed directory'')"
    by (simp add: sanitize_escape)
  show ?thesis
    using content_check_before_path_check [OF c p, of fs_empty cfg_allowed] sanitize_escape
    by simp
qed

subsection \<open>The loop of the analysis\<close>

lemma progress_values_append:
  "progress_values (xs @ ys) = progress_values xs @ progress_values ys"
  by (induction xs rule: progress_values.induct) auto

lemma scan_filenames_raised:
  "list_all entry_ok fs \<Longrightarrow> raised (scan_filenames cfg root n i fs st) = raised st"
  by (induction fs arbitrary: i st) (auto simp: Let_def entry_ok_def split: sum.splits)

lemma scan_filenames_file_count:
  "list_all entry_ok fs \<Longrightarrow>
   file_count (scan_filenames cfg root n i fs st) = file_count st + length fs"
  by (induction fs arbitrary: i st) (auto simp: Let_def entry_ok_def split: sum.splits)


lemma scan_filenames_files:
  "list_all entry_ok fs \<Longrightarrow>
   files (scan_filenames cfg root n i fs st) = files st @ concat (map (entry_info cfg root) fs)"
  by (induction fs arbitrary: i st)
     (auto simp: Let_def entry_ok_def entry_info_def split: sum.splits)

text \<open>The values reported for one directory, up to the entry at which the loop ends.\<close>

lemma scan_filenames_ticks:
  "progress_values (events (scan_filenames cfg root n i fs st))
   = progress_values (events st)
     @ map (\<lambda>j. min 90 ((j + 1) * 90 div n))
         (filter (\<lambda>j. (j + 1) mod 10 = 0) [i..<i + length (takeWhile entry_ok fs)])"
proof (induction fs arbitrary: i st)
  case Nil
  then show ?case by simp
next
  case (Cons f fs)
  show ?case
  proof (cases "snd f")
    case (Inl e)
    then show ?thesis by (simp add: entry_ok_def)
  next
    case (Inr sm)
    then have ok: "entry_ok f" by (simp add: entry_ok_def)
    have u: "[i..<i + length (takeWhile entry_ok (f # fs))]
             = i # [Suc i..<Suc i + length (takeWhile entry_ok fs)]"
      using ok by (subst upt_rec) simp
    show ?thesis
      unfolding u using Inr by (simp add: Let_def Cons.IH progress_values_append)
  qed
qed

lemma scan_dir_raised:
  "list_all entry_ok (snd (snd w)) \<Longrightarrow> raised (scan_dir cfg st w) = raised st"
  by (cases w) (simp add: scan_dir_def scan_filenames_raised split: option.splits)

lemma scan_dir_file_count:
  "raised st = None \<Longrightarrow> list_all entry_ok (snd (snd w)) \<Longrightarrow>
   file_count (scan_dir cfg st w) = file_count st + length (snd (snd w))"
  by (cases w) (simp add: scan_dir_def scan_filenames_file_count)


lemma scan_dir_files:
  "raised st = None \<Longrightarrow> list_all entry_ok (snd (snd w)) \<Longrightarrow>
   files (scan_dir cfg st w) = files st @ concat (map (entry_info cfg (fst w)) (snd (snd w)))"
  by (cases w) (simp add: scan_dir_def scan_filenames_files)

lemma dir_ticks_closed:
  "dir_ticks cfg w
   = map (\<lambda>j. min 90 ((j + 1) * 90 div length (snd (snd w))))
       (filter (\<lambda>j. (j + 1) mod 10 = 0) [0..<length (takeWhile entry_ok (snd (snd w)))])"
  by (cases w) (simp add: dir_ticks_def scan_dir_def scan_filenames_ticks)

lemma scan_dir_ticks:
  "raised st = None \<Longrightarrow>
   progress_values (events (scan_dir cfg st w)) = progress_values (events st) @ dir_ticks cfg w"
  unfolding dir_ticks_closed by (cases w) (simp add: scan_dir_def scan_filenames_ticks)

lemma walk_raised:
  "list_all (\<lambda>w. list_all entry_ok (snd (snd w))) ws \<Longrightarrow>
   raised (foldl (scan_dir cfg) st ws) = raised st"
  by (induction ws arbitrary: st) (auto simp: scan_dir_raised)

lemma walk_file_count:
  "raised st = None \<Longrightarrow> list_all (\<lambda>w. list_all entry_ok (snd (snd w))) ws \<Longrightarrow>
   file_count (foldl (scan_dir cfg) st ws)
   = file_count st + sum_list (map (\<lambda>w. length (snd (snd w))) ws)"
  by (induction ws arbitrary: st) (auto simp: scan_dir_file_count scan_dir_raised)


lemma walk_files:
  "raised st = None \<Longrightarrow> list_all (\<lambda>w. list_all entry_ok (snd (snd w))) ws \<Longrightarrow>
   files (foldl (scan_dir cfg) st ws)
   = files st @ concat (map (\<lambda>w. concat (map (entry_info cfg (fst w)) (snd (snd w)))) ws)"
  by (induction ws arbitrary: st) (auto simp: scan_dir_files scan_dir_raised)

lemma walk_ticks:
  "raised st = None \<Longrightarrow> list_all (\<lambda>w. list_all entry_ok (snd (snd w))) ws \<Longrightarrow>
   progress_values (events (foldl (scan_dir cfg) st ws))
   = progress_values (events st) @ concat (map (dir_ticks cfg) ws)"
  by (induction ws arbitrary: st) (auto simp: scan_dir_ticks scan_dir_raised)

lemma sum_list_map_concat:
  "sum_list (map g (concat xss)) = sum_list (map (\<lambda>xs. sum_list (map g xs)) xss)"
  by (induction xss) auto

text \<open>The walk of a tree whose entries can all be read.\<close>

lemma file_entries_ok: "list_all readable es \<Longrightarrow> list_all entry_ok (file_entries es)"
  by (induction es rule: file_entries.induct) (auto simp: entry_ok_def)

lemma os_walk_ok:
  "readable d \<Longrightarrow> list_all (\<lambda>w. list_all entry_ok (snd (snd w))) (os_walk tp d)"
proof (induction d arbitrary: tp)
  case (Dir n es)
  have es: "list_all readable es" using Dir.prems by simp
  have here: "list_all entry_ok (file_entries es)"
    using es by (rule file_entries_ok)
  have "list_all (\<lambda>w. list_all entry_ok (snd (snd w)))
          (if is_dir e then os_walk (os_path_join tp (node_name e)) e else [])"
    if "e \<in> set es" for e
  proof -
    have "readable e" using es that by (simp add: list_all_iff)
    then show ?thesis using Dir.IH [OF that] by simp
  qed
  then have below: "list_all (\<lambda>w. list_all entry_ok (snd (snd w)))
          (concat (map (\<lambda>e. if is_dir e then os_walk (os_path_join tp (node_name e)) e else []) es))"
    unfolding list_all_iff by auto
  show ?case using here below by simp
qed auto


lemma os_walk_count_entries:
  assumes "\<And>e tp. e \<in> set es \<Longrightarrow>
             sum_list (map (\<lambda>w. length (snd (snd w))) (os_walk tp e))
             = (if is_dir e then count_files e + count_special e else 0)"
  shows "length (file_entries es)
         + sum_list (map (\<lambda>e. sum_list (map (\<lambda>w. length (snd (snd w)))
                                 (if is_dir e then os_walk (g e) e else []))) es)
         = sum_list (map count_files es) + sum_list (map count_special es)"
  using assms
proof (induction es)
  case Nil
  then show ?case by simp
next
  case (Cons e es)
  have rest: "length (file_entries es)
         + sum_list (map (\<lambda>e. sum_list (map (\<lambda>w. length (snd (snd w)))
                                 (if is_dir e then os_walk (g e) e else []))) es)
         = sum_list (map count_files es) + sum_list (map count_special es)"
    using Cons.IH Cons.prems by simp
  have here: "\<And>tp. sum_list (map (\<lambda>w. length (snd (snd w))) (os_walk tp e))
                 = (if is_dir e then count_files e + count_special e else 0)"
    using Cons.prems [of e] by simp
  show ?case
    using rest here by (cases e) (simp_all del: os_walk.simps)
qed

lemma os_walk_count:
  "sum_list (map (\<lambda>w. length (snd (snd w))) (os_walk tp d))
   = (if is_dir d then count_files d + count_special d else 0)"
proof (induction d arbitrary: tp)
  case (Dir n es)
  show ?case
    using os_walk_count_entries [of es "\<lambda>e. os_path_join tp (node_name e)", OF Dir.IH]
    by (simp add: sum_list_map_concat comp_def)
qed auto



subsection \<open>The result of the analysis\<close>

lemma folder_analysis_dir:
  assumes "sanitize_path cfg (folder_path folder) = Inr sp" and "stat fs sp = Some (Dir n es)"
    and "readable (Dir n es)"
  shows "folder_analysis cfg fs folder =
     (let st = foldl (scan_dir cfg)
                 \<lparr>files = [], total_size = 0, file_count = 0,
                  events = [CtxInfo (''Analyzing folder: '' @ folder_path folder), ReportProgress 0 100],
                  raised = None\<rparr>
                 (os_walk sp (Dir n es))
      in (JObj [(''status'', JStr ''success''),
                (''path'', JStr (folder_path folder)),
                (''file_count'', JNum (file_count st)),
                (''total_size'', JNum (total_size st)),
                (''files'', JArr (take 50 (files st))),
                (''message'', JStr ''Folder analysis completed'')],
          events st @ [ReportProgress 100 100]))"
proof -
  have "raised (foldl (scan_dir cfg)
                 \<lparr>files = [], total_size = 0, file_count = 0,
                  events = [CtxInfo (''Analyzing folder: '' @ folder_path folder), ReportProgress 0 100],
                  raised = None\<rparr>
                 (os_walk sp (Dir n es))) = None"
    using os_walk_ok [OF assms(3), of sp] by (simp add: walk_raised del: os_walk.simps)
  then show ?thesis
    using assms(1,2) by (simp add: folder_analysis_def Let_def del: os_walk.simps)
qed

lemma entry_info_length:
  "list_all entry_ok fs \<Longrightarrow> length (concat (map (entry_info cfg r) fs)) = length fs"
  by (induction fs) (auto simp: entry_ok_def entry_info_def split: sum.splits)

lemma walk_listing_length:
  assumes "readable (Dir n es)"
  shows "length (walk_listing cfg tp (Dir n es)) = count_files (Dir n es) + count_special (Dir n es)"
proof -
  have "length (concat (map (\<lambda>w. concat (map (entry_info cfg (fst w)) (snd (snd w)))) ws))
        = sum_list (map (\<lambda>w. length (snd (snd w))) ws)"
    if "list_all (\<lambda>w. list_all entry_ok (snd (snd w))) ws" for ws
    using that by (induction ws) (auto simp: entry_info_length)
  from this [OF os_walk_ok [OF assms, of tp]] show ?thesis
    using os_walk_count [of tp "Dir n es"]
    by (simp add: walk_listing_def del: os_walk.simps count_files.simps count_special.simps)
qed


text \<open>
  C6, as amended. For a path that passes the check and names a directory under which
  every entry can be read, so that the walk completes, the \<open>files\<close> of the result are the
  first 50 entries of the listing of the walk, in the order of the walk, and
  \<open>file_count\<close> is the length of the whole listing; the result has the keys \<open>status\<close>,
  \<open>path\<close>, \<open>file_count\<close>, \<open>total_size\<close>, \<open>files\<close> and \<open>message\<close>, and no \<open>truncated\<close>
  flag among them.
\<close>

theorem analysis_listing:
  assumes "sanitize_path cfg (folder_path folder) = Inr sp" and "stat fs sp = Some (Dir n es)"
    and "readable (Dir n es)"
  shows "json_get (fst (folder_analysis cfg fs folder)) ''files''
           = Some (JArr (take 50 (walk_listing cfg sp (Dir n es))))
       \<and> json_get (fst (folder_analysis cfg fs folder)) ''file_count''
           = Some (JNum (length (walk_listing cfg sp (Dir n es))))
       \<and> json_keys (fst (folder_analysis cfg fs folder))
           = [''status'', ''path'', ''file_count'', ''total_size'', ''files'', ''message'']
       \<and> json_get (fst (folder_analysis cfg fs folder)) ''truncated'' = None"
  unfolding folder_analysis_dir [OF assms] Let_def walk_listing_length [OF assms(3)]
  using os_walk_count [of sp "Dir n es"] os_walk_ok [OF assms(3), of sp]
  by (simp add: walk_file_count walk_files walk_listing_def json_keys_def
           del: os_walk.simps count_files.simps count_special.simps)

lemma tick_mono:
  fixes x y m :: nat
  assumes "x \<le> y"
  shows "min 90 ((x + 1) * 90 div m) \<le> min 90 ((y + 1) * 90 div m)"
proof -
  have "(x + 1) * 90 \<le> (y + 1) * 90" using assms by simp
  then have "(x + 1) * 90 div m \<le> (y + 1) * 90 div m" by (rule div_le_mono)
  then show ?thesis by (simp add: min_le_iff_disj)
qed

lemma dir_ticks_sorted: "sorted (dir_ticks cfg w)"
proof -
  have "sorted_wrt (\<lambda>x y. min 90 ((x + 1) * 90 div m) \<le> min 90 ((y + 1) * 90 div m)) xs"
    if "sorted xs" for xs :: "nat list" and m :: nat
    using that
    by (rule sorted_wrt_mono_rel [rotated]) (rule tick_mono)
  moreover have "sorted (filter (\<lambda>j. (j + 1) mod 10 = 0) [0..<k])" for k
    by (rule sorted_wrt_filter) simp
  ultimately show ?thesis
    unfolding dir_ticks_closed by (simp add: sorted_map)
qed

lemma dir_ticks_bound: "v \<in> set (dir_ticks cfg w) \<Longrightarrow> v \<le> 90"
  unfolding dir_ticks_closed by auto

text \<open>
  C9, as amended. For a path that passes the check and names a directory under which
  every entry can be read, so that the call completes, the progress values of the call
  are 0, then the values reported for each directory of the walk in turn, then 100; the
  values reported for one directory are non-decreasing and at most 90. (From one
  directory to the next the values may fall.)
\<close>

theorem progress_values_of_analysis:
  assumes "sanitize_path cfg (folder_path folder) = Inr sp" and "stat fs sp = Some (Dir n es)"
    and "readable (Dir n es)"
  shows "progress_values (snd (folder_analysis cfg fs folder))
           = 0 # concat (map (dir_ticks cfg) (os_walk sp (Dir n es))) @ [100]
       \<and> (\<forall>w \<in> set (os_walk sp (Dir n es)).
             sorted (dir_ticks cfg w) \<and> (\<forall>v \<in> set (dir_ticks cfg w). v \<le> 90))"
  unfolding folder_analysis_dir [OF assms] Let_def
  using os_walk_ok [OF assms(3), of sp]
  by (simp add: progress_values_append walk_ticks dir_ticks_sorted dir_ticks_bound
           del: os_walk.simps)

subsection \<open>The analysis of concrete trees\<close>

lemma sanitize_notes: "sanitize_path cfg_allowed ''notes'' = Inr ''/allowed/notes''"
  by code_simp

lemma comps_notes: "path_comps ''/allowed/notes'' = [''allowed'', ''notes'']"
  by code_simp

lemma stat_notes: "stat (fs_notes es) ''/allowed/notes'' = Some (Dir ''notes'' es)"
  by (simp add: stat_def comps_notes fs_notes_def find_child_def)

lemma file_entries_append: "file_entries (xs @ ys) = file_entries xs @ file_entries ys"
  by (induction xs rule: file_entries.induct) auto

lemma numbered_count: "sum_list (map count_files (numbered_files k)) = k"
  by (simp add: numbered_files_def comp_def sum_list_triv)


lemma numbered_entries: "length (file_entries (numbered_files k)) = k"
proof -
  have "length (file_entries (map (\<lambda>i. File (f i) ''x'' i) xs)) = length xs" for xs :: "nat list" and f
    by (induction xs) auto
  then show ?thesis by (simp add: numbered_files_def)
qed

lemma numbered_special: "sum_list (map count_special (numbered_files k)) = 0"
  by (simp add: numbered_files_def comp_def)

lemma numbered_readable: "list_all readable (numbered_files k)"
  by (simp add: numbered_files_def list_all_iff)

lemma numbered_no_dirs:
  "concat (map (\<lambda>e. if is_dir e then os_walk (g e) e else []) (numbered_files k)) = []"
  by (simp add: numbered_files_def)

lemma numbered_walk:
  "map (\<lambda>w. length (snd (snd w))) (os_walk tp (Dir n (numbered_files k))) = [k]"
  by (simp add: numbered_no_dirs numbered_entries)

lemma two_level_walk:
  "map (\<lambda>w. length (snd (snd w)))
     (os_walk tp (Dir n (numbered_files k @ [Dir m (numbered_files l)]))) = [k, l]"
  by (simp add: numbered_no_dirs numbered_entries file_entries_append)

lemma takeWhile_all: "list_all P xs \<Longrightarrow> takeWhile P xs = xs"
  by (induction xs) auto

lemma dir_ticks_by_length:
  "list_all (\<lambda>w. list_all entry_ok (snd (snd w))) ws \<Longrightarrow>
   map (dir_ticks cfg) ws
   = map (\<lambda>m. map (\<lambda>j. min 90 ((j + 1) * 90 div m)) (filter (\<lambda>j. (j + 1) mod 10 = 0) [0..<m]))
       (map (\<lambda>w. length (snd (snd w))) ws)"
  by (induction ws) (simp_all add: dir_ticks_closed takeWhile_all)

lemma readable_one_level: "readable (Dir n (numbered_files k))"
  by (simp add: numbered_readable)

lemma readable_two_level: "readable (Dir n (numbered_files k @ [Dir m (numbered_files l)]))"
  by (simp add: numbered_readable)


lemma ticks_10:
  "map (\<lambda>j. min 90 ((j + 1) * 90 div 10)) (filter (\<lambda>j. (j + 1) mod 10 = 0) [0..<10]) = [90::nat]"
  by code_simp

lemma ticks_20:
  "map (\<lambda>j. min 90 ((j + 1) * 90 div 20)) (filter (\<lambda>j. (j + 1) mod 10 = 0) [0..<20]) = [45, 90::nat]"
  by code_simp

lemma ticks_60:
  "map (\<lambda>j. min 90 ((j + 1) * 90 div 60)) (filter (\<lambda>j. (j + 1) mod 10 = 0) [0..<60])
   = [15, 30, 45, 60, 75, 90::nat]"
  by code_simp





theorem analysis_listing_witness:
  "json_get (fst (folder_analysis cfg_allowed
       (fs_notes (numbered_files 40 @ [Dir ''sub'' (numbered_files 20)])) \<lparr>folder_path = ''notes''\<rparr>))
     ''files''
     = Some (JArr (take 50 (walk_listing cfg_allowed ''/allowed/notes''
                              (Dir ''notes'' (numbered_files 40 @ [Dir ''sub'' (numbered_files 20)])))))
   \<and> json_get (fst (folder_analysis cfg_allowed
       (fs_notes (numbered_files 40 @ [Dir ''sub'' (numbered_files 20)])) \<lparr>folder_path = ''notes''\<rparr>))
     ''file_count'' = Some (JNum 60)
   \<and> json_get (fst (folder_analysis cfg_allowed
       (fs_notes (numbered_files 40 @ [Dir ''sub'' (numbered_files 20)])) \<lparr>folder_path = ''notes''\<rparr>))
     ''truncated'' = None"
proof -
  have s: "sanitize_path cfg_allowed (folder_path \<lparr>folder_path = ''notes''\<rparr>) = Inr ''/allowed/notes''"
    by (simp add: sanitize_notes)
  have l: "length (walk_listing cfg_allowed ''/allowed/notes''
                     (Dir ''notes'' (numbered_files 40 @ [Dir ''sub'' (numbered_files 20)]))) = 60"
    unfolding walk_listing_length [OF readable_two_level]
    by (simp add: numbered_count numbered_special)
  show ?thesis
    using analysis_listing [OF s stat_notes readable_two_level [of "''notes''" 40 "''sub''" 20]]
    by (simp only: l simp_thms)
qed

text \<open>
  The claim as it was stated asks for a \<open>truncated\<close> flag equal to \<open>file_count > 50\<close>:
  with 51 files in the directory the result has none.
\<close>

theorem truncated_flag_absent:
  "json_get (fst (folder_analysis cfg_allowed (fs_notes (numbered_files 51)) \<lparr>folder_path = ''notes''\<rparr>))
     ''file_count'' = Some (JNum 51)
   \<and> json_get (fst (folder_analysis cfg_allowed (fs_notes (numbered_files 51)) \<lparr>folder_path = ''notes''\<rparr>))
     ''truncated'' = None"
proof -
  have s: "sanitize_path cfg_allowed (folder_path \<lparr>folder_path = ''notes''\<rparr>) = Inr ''/allowed/notes''"
    by (simp add: sanitize_notes)
  have c: "sum_list (map (\<lambda>w. length (snd (snd w)))
             (os_walk ''/allowed/notes'' (Dir ''notes'' (numbered_files 51)))) = 51"
    unfolding numbered_walk by simp
  show ?thesis
    unfolding folder_analysis_dir [OF s stat_notes readable_one_level] Let_def
    using os_walk_ok [OF readable_one_level [of "''notes''" 51], of "''/allowed/notes''"]
    by (simp add: walk_file_count c del: os_walk.simps)
qed

theorem progress_values_of_analysis_witness:
  "progress_values (snd (folder_analysis cfg_allowed (fs_notes (numbered_files 60))
                           \<lparr>folder_path = ''notes''\<rparr>))
   = [0, 15, 30, 45, 60, 75, 90, 100]"
proof -
  have s: "sanitize_path cfg_allowed (folder_path \<lparr>folder_path = ''notes''\<rparr>) = Inr ''/allowed/notes''"
    by (simp add: sanitize_notes)
  have t: "concat (map (dir_ticks cfg_allowed)
             (os_walk ''/allowed/notes'' (Dir ''notes'' (numbered_files 60))))
           = [15, 30, 45, 60, 75, 90]"
    unfolding dir_ticks_by_length [OF os_walk_ok [OF readable_one_level]] numbered_walk
    by (simp only: list.map concat.simps ticks_60 append.simps append_Nil2)
  show ?thesis
    using progress_values_of_analysis [OF s stat_notes readable_one_level [of "''notes''" 60]]
    by (simp only: t) simp
qed

text \<open>
  The claim as it was stated fails for a directory of 10 files with a sub-directory of
  20 files: the tenth file of the first reports 90, the tenth of the second 45.
\<close>

theorem progress_not_monotone:
  "progress_values (snd (folder_analysis cfg_allowed
       (fs_notes (numbered_files 10 @ [Dir ''sub'' (numbered_files 20)])) \<lparr>folder_path = ''notes''\<rparr>))
   = [0, 90, 45, 90, 100]
   \<and> \<not> sorted (progress_values (snd (folder_analysis cfg_allowed
       (fs_notes (numbered_files 10 @ [Dir ''sub'' (numbered_files 20)])) \<lparr>folder_path = ''notes''\<rparr>)))"
proof -
  have s: "sanitize_path cfg_allowed (folder_path \<lparr>folder_path = ''notes''\<rparr>) = Inr ''/allowed/notes''"
    by (simp add: sanitize_notes)
  have t: "concat (map (dir_ticks cfg_allowed)
             (os_walk ''/allowed/notes'' (Dir ''notes'' (numbered_files 10 @ [Dir ''sub'' (numbered_files 20)]))))
           = [90, 45, 90]"
    unfolding dir_ticks_by_length [OF os_walk_ok [OF readable_two_level]] two_level_walk
    by (simp only: list.map concat.simps ticks_10 ticks_20 append.simps append_Nil2)
  have v: "progress_values (snd (folder_analysis cfg_allowed
       (fs_notes (numbered_files 10 @ [Dir ''sub'' (numbered_files 20)])) \<lparr>folder_path = ''notes''\<rparr>))
   = [0, 90, 45, 90, 100]"
    unfolding folder_analysis_dir [OF s stat_notes readable_two_level] Let_def
    using os_walk_ok [OF readable_two_level [of "''notes''" 10 "''sub''" 20], of "''/allowed/notes''"]
    by (simp add: progress_values_append walk_ticks t del: os_walk.simps)
  show ?thesis
    unfolding v by simp
qed

subsection \<open>What the path check returns\<close>

lemma split_sep_no_sep: "w \<in> set (split_sep s) \<Longrightarrow> SEP \<notin> set w"
  by (induction s arbitrary: w) (auto split: if_splits list.splits)

lemma split_sep_plain: "SEP \<notin> set w \<Longrightarrow> split_sep w = [w]"
  by (induction w) auto

lemma split_sep_append: "SEP \<notin> set w \<Longrightarrow> split_sep (w @ SEP # r) = w # split_sep r"
  by (induction w) auto

lemma split_sep_join:
  "ws \<noteq> [] \<Longrightarrow> \<forall>w \<in> set ws. SEP \<notin> set w \<Longrightarrow> split_sep (join_sep ws) = ws"
  by (induction ws rule: join_sep.induct) (auto simp: split_sep_plain split_sep_append)

lemma path_comps_sep: "path_comps (SEP # s) = path_comps s"
  by (simp add: path_comps_def)

lemma path_comps_seps: "path_comps (replicate k SEP @ s) = path_comps s"
  by (induction k) (auto simp: path_comps_sep)

lemma path_comps_join:
  assumes "\<forall>w \<in> set ws. w \<noteq> [] \<and> SEP \<notin> set w"
  shows "path_comps (join_sep ws) = ws"
proof (cases "ws = []")
  case True
  then show ?thesis by (simp add: path_comps_def)
next
  case False
  then have "split_sep (join_sep ws) = ws"
    using assms by (simp add: split_sep_join)
  moreover have "filter (\<lambda>x. x \<noteq> []) ws = ws"
    using assms by (simp add: filter_id_conv)
  ultimately show ?thesis by (simp add: path_comps_def)
qed

lemma normpath_step_names:
  assumes k: "0 < k"
    and acc: "list_all plain_name acc"
    and seg: "SEP \<notin> set seg"
  shows "list_all plain_name (normpath_step k acc seg)"
proof -
  have no_pardir: "last acc \<noteq> PARDIR" if "acc \<noteq> []"
  proof -
    have "last acc \<in> set acc" using that by (rule last_in_set)
    then have "plain_name (last acc)" using acc by (simp add: list_all_iff)
    then show ?thesis by (simp add: plain_name_def)
  qed
  have bl: "list_all plain_name (butlast acc)"
    using acc by (auto simp: list_all_iff dest: in_set_butlastD)
  consider (skip) "seg = [] \<or> seg = CURDIR"
    | (push) "seg \<noteq> []" "seg \<noteq> CURDIR" "seg \<noteq> PARDIR"
    | (pop) "seg \<noteq> []" "seg \<noteq> CURDIR" "seg = PARDIR"
    by blast
  then show ?thesis
  proof cases
    case skip
    then show ?thesis using acc by (simp add: normpath_step_def)
  next
    case push
    then have "normpath_step k acc seg = acc @ [seg]"
      by (simp add: normpath_step_def)
    moreover have "plain_name seg"
      using push seg by (simp add: plain_name_def)
    ultimately show ?thesis using acc by simp
  next
    case pop
    then have "normpath_step k acc seg = (if acc \<noteq> [] then butlast acc else acc)"
      using k no_pardir by (simp add: normpath_step_def)
    then show ?thesis using acc bl by simp
  qed
qed

lemma normpath_fold_names:
  assumes "0 < k" and "list_all plain_name acc" and "\<forall>w \<in> set segs. SEP \<notin> set w"
  shows "list_all plain_name (foldl (normpath_step k) acc segs)"
  using assms
proof (induction segs arbitrary: acc)
  case Nil
  then show ?case by simp
next
  case (Cons seg segs)
  have "list_all plain_name (normpath_step k acc seg)"
    using Cons.prems by (intro normpath_step_names) simp_all
  then show ?case
    using Cons.IH [of "normpath_step k acc seg"] Cons.prems by simp
qed

lemma initial_slashes_abs: "isabs p \<Longrightarrow> 0 < initial_slashes_of p"
  by (simp add: isabs_def initial_slashes_of_def)

lemma normpath_abs_comps:
  assumes "isabs p"
  shows "path_comps (normpath p) = foldl (normpath_step (initial_slashes_of p)) [] (split_sep p)"
    and "list_all plain_name (path_comps (normpath p))"
proof -
  let ?k = "initial_slashes_of p"
  let ?cs = "foldl (normpath_step ?k) [] (split_sep p)"
  have k: "0 < ?k" using assms by (rule initial_slashes_abs)
  have names: "list_all plain_name ?cs"
    using k by (rule normpath_fold_names) (auto dest: split_sep_no_sep)
  have p: "p \<noteq> []" using assms by (auto simp: isabs_def startswith_def)
  have n: "normpath p = replicate ?k SEP @ join_sep ?cs"
    using p k by (simp add: normpath_def Let_def)
  have "\<forall>w \<in> set ?cs. w \<noteq> [] \<and> SEP \<notin> set w"
    using names by (simp add: list_all_iff plain_name_def)
  then show c: "path_comps (normpath p) = ?cs"
    unfolding n path_comps_seps by (rule path_comps_join)
  show "list_all plain_name (path_comps (normpath p))"
    unfolding c by (rule names)
qed

lemma isabs_join: "isabs a \<Longrightarrow> isabs (os_path_join a b)"
  by (cases a) (auto simp: isabs_def os_path_join_def startswith_def)

lemma normpath_step_plain:
  assumes k: "0 < k" and acc: "list_all plain_name acc"
  shows "normpath_step k acc seg
         = (if seg = [] \<or> seg = CURDIR then acc
            else if seg = PARDIR then butlast acc
            else acc @ [seg])"
proof -
  have no_pardir: "last acc \<noteq> PARDIR" if "acc \<noteq> []"
  proof -
    have "last acc \<in> set acc" using that by (rule last_in_set)
    then have "plain_name (last acc)" using acc by (simp add: list_all_iff)
    then show ?thesis by (simp add: plain_name_def)
  qed
  consider (skip) "seg = [] \<or> seg = CURDIR"
    | (push) "seg \<noteq> []" "seg \<noteq> CURDIR" "seg \<noteq> PARDIR"
    | (pop) "seg \<noteq> []" "seg \<noteq> CURDIR" "seg = PARDIR"
    by blast
  then show ?thesis
  proof cases
    case skip
    then show ?thesis by (simp add: normpath_step_def)
  next
    case push
    then show ?thesis by (simp add: normpath_step_def)
  next
    case pop
    then have "normpath_step k acc seg = (if acc \<noteq> [] then butlast acc else acc)"
      using k no_pardir by (simp add: normpath_step_def)
    then show ?thesis using pop by (cases "acc = []") simp_all
  qed
qed

text \<open>
  Without symbolic links the canonical form of the specification is what the loop of
  \<^verbatim>\<open>normpath\<close> computes for an absolute path.
\<close>

lemma canonicalize_no_links:
  assumes "0 < k" and "list_all plain_name acc" and "\<forall>w \<in> set segs. SEP \<notin> set w"
  shows "canonicalize fuel [] acc segs = Some (foldl (normpath_step k) acc segs)"
  using assms
proof (induction segs arbitrary: acc)
  case Nil
  then show ?case by simp
next
  case (Cons seg segs)
  have names: "list_all plain_name (normpath_step k acc seg)"
    using Cons.prems by (intro normpath_step_names) simp_all
  have step: "normpath_step k acc seg
         = (if seg = [] \<or> seg = CURDIR then acc
            else if seg = PARDIR then butlast acc
            else acc @ [seg])"
    using Cons.prems(1,2) by (rule normpath_step_plain)
  have rest: "canonicalize fuel [] (normpath_step k acc seg) segs
              = Some (foldl (normpath_step k) (normpath_step k acc seg) segs)"
    using Cons.IH [OF Cons.prems(1) names] Cons.prems(3) by simp
  have "canonicalize fuel [] acc (seg # segs) = canonicalize fuel [] (normpath_step k acc seg) segs"
    unfolding step by simp
  then show ?case using rest by simp
qed

lemma normpath_abs_string:
  assumes "isabs p"
  shows "normpath p = replicate (initial_slashes_of p) SEP @ join_sep (path_comps (normpath p))"
proof -
  have k: "0 < initial_slashes_of p" using assms by (rule initial_slashes_abs)
  have p: "p \<noteq> []" using assms by (auto simp: isabs_def startswith_def)
  have "normpath p = replicate (initial_slashes_of p) SEP
                      @ join_sep (foldl (normpath_step (initial_slashes_of p)) [] (split_sep p))"
    using p k by (simp add: normpath_def Let_def)
  then show ?thesis
    using normpath_abs_comps(1) [OF assms] by simp
qed

lemma isabs_joined: "isabs (ALLOWED_BASE_PATH cfg) \<Longrightarrow> isabs (joined cfg p)"
  unfolding joined_def by (rule isabs_join)

lemma joined_notes:
  "joined cfg_allowed ''notes/./old/../a.txt'' = ''/allowed/notes/./old/../a.txt''"
  by code_simp

lemma normpath_notes: "normpath ''/allowed/notes/./old/../a.txt'' = ''/allowed/notes/a.txt''"
  by code_simp

lemma comps_notes_file: "path_comps ''/allowed/notes/a.txt'' = [''allowed'', ''notes'', ''a.txt'']"
  by code_simp

lemma slashes_notes: "initial_slashes_of ''/allowed/notes/./old/../a.txt'' = 1"
  by code_simp

lemma inside_notes: "startswith ''/allowed/notes/a.txt'' (ALLOWED_BASE_PATH cfg_allowed)"
  by code_simp

lemma joined_passwd: "joined cfg_allowed ''../etc/passwd'' = ''/allowed/../etc/passwd''"
  by code_simp

lemma normpath_passwd: "normpath ''/allowed/../etc/passwd'' = ''/etc/passwd''"
  by code_simp

lemma comps_passwd: "path_comps ''/etc/passwd'' = [''etc'', ''passwd'']"
  by code_simp

lemma outside_passwd: "\<not> startswith ''/etc/passwd'' (ALLOWED_BASE_PATH cfg_allowed)"
  by code_simp

lemma isabs_allowed: "isabs (ALLOWED_BASE_PATH cfg_allowed)"
  by code_simp

text \<open>
  C3, as amended. With an absolute root, \<open>sanitize_path\<close> brings the input joined onto
  the root into a normal form before the containment check. The components of the
  normal form are the canonical form that the specification gives the joined path when
  none of its components is a symbolic link: \<open>.\<close> and empty components are dropped and
  each \<open>..\<close> removes the component before it. The normal form is these components
  joined after the leading separators, and none of them is \<open>.\<close> or \<open>..\<close>. The
  containment check is applied to the normal form: when it fails the result is the path
  violation, and when it passes the result is the normal form.
\<close>

theorem sanitize_path_lexical:
  assumes "isabs (ALLOWED_BASE_PATH cfg)"
  shows "canonicalize fuel [] [] (split_sep (joined cfg p))
           = Some (path_comps (normpath (joined cfg p)))
       \<and> normpath (joined cfg p)
           = replicate (initial_slashes_of (joined cfg p)) SEP
             @ join_sep (path_comps (normpath (joined cfg p)))
       \<and> CURDIR \<notin> set (path_comps (normpath (joined cfg p)))
       \<and> PARDIR \<notin> set (path_comps (normpath (joined cfg p)))
       \<and> sanitize_path cfg p
           = (if startswith (normpath (joined cfg p)) (ALLOWED_BASE_PATH cfg)
              then Inr (normpath (joined cfg p))
              else Inl (ValueError ''Access outside allowed directory''))"
proof -
  let ?j = "joined cfg p"
  have a: "isabs ?j" using assms by (rule isabs_joined)
  have k: "0 < initial_slashes_of ?j" using a by (rule initial_slashes_abs)
  have "canonicalize fuel [] [] (split_sep ?j)
        = Some (foldl (normpath_step (initial_slashes_of ?j)) [] (split_sep ?j))"
    using k by (rule canonicalize_no_links) (auto dest: split_sep_no_sep)
  then have c: "canonicalize fuel [] [] (split_sep ?j) = Some (path_comps (normpath ?j))"
    using normpath_abs_comps(1) [OF a] by simp
  have s: "normpath ?j = replicate (initial_slashes_of ?j) SEP @ join_sep (path_comps (normpath ?j))"
    using a by (rule normpath_abs_string)
  have "list_all plain_name (path_comps (normpath ?j))"
    using a by (rule normpath_abs_comps(2))
  then have d: "CURDIR \<notin> set (path_comps (normpath ?j)) \<and> PARDIR \<notin> set (path_comps (normpath ?j))"
    unfolding list_all_iff plain_name_def by blast
  have r: "sanitize_path cfg p
           = (if startswith (normpath ?j) (ALLOWED_BASE_PATH cfg)
              then Inr (normpath ?j)
              else Inl (ValueError ''Access outside allowed directory''))"
    using a by (simp add: sanitize_path_def abspath_def joined_def Let_def)
  from c s d r show ?thesis by (intro conjI) simp_all
qed

theorem sanitize_path_lexical_witness:
  "isabs (ALLOWED_BASE_PATH cfg_allowed)
   \<and> canonicalize 40 [] [] (split_sep ''/allowed/notes/./old/../a.txt'')
       = Some [''allowed'', ''notes'', ''a.txt'']
   \<and> ''/allowed/notes/a.txt'' = replicate 1 SEP @ join_sep [''allowed'', ''notes'', ''a.txt'']
   \<and> CURDIR \<notin> set [''allowed'', ''notes'', ''a.txt'']
   \<and> PARDIR \<notin> set [''allowed'', ''notes'', ''a.txt'']
   \<and> sanitize_path cfg_allowed ''notes/./old/../a.txt'' = Inr ''/allowed/notes/a.txt''
   \<and> canonicalize 40 [] [] (split_sep ''/allowed/../etc/passwd'') = Some [''etc'', ''passwd'']
   \<and> sanitize_path cfg_allowed ''../etc/passwd''
       = Inl (ValueError ''Access outside allowed directory'')"
proof -
  note t = sanitize_path_lexical [OF isabs_allowed, of 40 "''notes/./old/../a.txt''",
             unfolded joined_notes normpath_notes comps_notes_file slashes_notes]
  note u = sanitize_path_lexical [OF isabs_allowed, of 40 "''../etc/passwd''",
             unfolded joined_passwd normpath_passwd comps_passwd]
  have c: "canonicalize 40 [] [] (split_sep ''/allowed/notes/./old/../a.txt'')
             = Some [''allowed'', ''notes'', ''a.txt'']"
    using t by (rule conjunct1)
  have s: "''/allowed/notes/a.txt'' = replicate 1 SEP @ join_sep [''allowed'', ''notes'', ''a.txt'']"
    using t by (elim conjE)
  have d: "CURDIR \<notin> set [''allowed'', ''notes'', ''a.txt'']"
    using t by (elim conjE)
  have e: "PARDIR \<notin> set [''allowed'', ''notes'', ''a.txt'']"
    using t by (elim conjE)
  have r: "sanitize_path cfg_allowed ''notes/./old/../a.txt'' = Inr ''/allowed/notes/a.txt''"
    using t inside_notes by (elim conjE) (simp only: if_True)
  have c': "canonicalize 40 [] [] (split_sep ''/allowed/../etc/passwd'') = Some [''etc'', ''passwd'']"
    using u by (rule conjunct1)
  have r': "sanitize_path cfg_allowed ''../etc/passwd''
              = Inl (ValueError ''Access outside allowed directory'')"
    using u outside_passwd by (elim conjE) (simp only: if_False)
  from isabs_allowed c s d e r c' r' show ?thesis by (intro conjI)
qed

text \<open>
  The claim as it was stated fails for a link inside the root that points outside: with
  \<open>/allowed/link\<close> a symbolic link to \<open>/etc\<close>, the canonical form of
  \<open>/allowed/link/passwd\<close> is \<open>/etc/passwd\<close>, which the resolver of the specification
  refuses, and \<open>sanitize_path\<close> returns \<open>/allowed/link/passwd\<close>.
\<close>

lemma link_canonical:
  "canonicalize 40 [([''allowed'', ''link''], [''etc''])] [] (split_sep ''/allowed/link/passwd'')
     = Some [''etc'', ''passwd'']"
  by code_simp

lemma link_spec:
  "spec_resolve [([''allowed'', ''link''], [''etc''])] ''/allowed'' ''link/passwd''
     = Inl (ValueError ''Access outside allowed directory'')"
  by code_simp

lemma link_code: "sanitize_path cfg_allowed ''link/passwd'' = Inr ''/allowed/link/passwd''"
  by code_simp

lemma comps_allowed: "path_comps ''/allowed'' = [''allowed'']"
  by code_simp

theorem symlink_escape_admitted:
  "canonicalize 40 [([''allowed'', ''link''], [''etc''])] [] (split_sep ''/allowed/link/passwd'')
     = Some [''etc'', ''passwd'']
   \<and> \<not> prefix (path_comps ''/allowed'') [''etc'', ''passwd'']
   \<and> spec_resolve [([''allowed'', ''link''], [''etc''])] ''/allowed'' ''link/passwd''
     = Inl (ValueError ''Access outside allowed directory'')
   \<and> sanitize_path cfg_allowed ''link/passwd'' = Inr ''/allowed/link/passwd''"
  unfolding link_canonical link_spec link_code comps_allowed by simp

subsection \<open>The containment check compares strings\<close>

lemma comps_sibling: "path_comps ''/allowed-2/secret'' = [''allowed-2'', ''secret'']"
  by code_simp

lemma sibling_code: "sanitize_path cfg_allowed ''../allowed-2/secret'' = Inr ''/allowed-2/secret''"
  by code_simp

lemma sibling_prefix: "startswith ''/allowed-2/secret'' ''/allowed''"
  by code_simp

lemma sibling_spec:
  "spec_resolve [] ''/allowed'' ''../allowed-2/secret''
   = Inl (ValueError ''Access outside allowed directory'')"
  by code_simp

text \<open>
  C1, where the code departs from the claim. With the root \<open>/allowed\<close>, the input
  \<open>../allowed-2/secret\<close> resolves to \<open>/allowed-2/secret\<close>: the string begins with the
  string of the root, the components of the root are not a prefix of its components, the
  resolver of the specification refuses it, and \<open>sanitize_path\<close> returns it.
\<close>

theorem sibling_directory_admitted:
  "sanitize_path cfg_allowed ''../allowed-2/secret'' = Inr ''/allowed-2/secret''
   \<and> startswith ''/allowed-2/secret'' ''/allowed''
   \<and> \<not> prefix (path_comps ''/allowed'') (path_comps ''/allowed-2/secret'')
   \<and> spec_resolve [] ''/allowed'' ''../allowed-2/secret''
       = Inl (ValueError ''Access outside allowed directory'')"
  unfolding sibling_code comps_allowed comps_sibling sibling_spec using sibling_prefix by simp

lemma dotdot_code:
  "sanitize_path cfg_allowed ''notes/../../allowed-2/secret'' = Inr ''/allowed-2/secret''"
  by code_simp

lemma override_code:
  "sanitize_path cfg_allowed (BACKSLASH # ''/allowed-2/secret'') = Inr ''/allowed-2/secret''"
  by code_simp

lemma override_join:
  "os_path_join ''/allowed'' (lstrip BACKSLASH (lstrip SEP (BACKSLASH # ''/allowed-2/secret'')))
   = ''/allowed-2/secret''"
  by code_simp

lemma base_allowed: "ALLOWED_BASE_PATH cfg_allowed = ''/allowed''"
  by (simp add: cfg_allowed_def)

text \<open>
  C2, where the code departs from the claim. With the root \<open>/allowed\<close>, an input with
  \<open>..\<close> segments that resolves to \<open>/allowed-2/secret\<close>, outside the root, is returned
  and not refused; so is an input that begins with a backslash and a separator, which
  still begins with a separator after the two strips and replaces the root in the join.
\<close>

theorem dotdot_escape_admitted:
  "sanitize_path cfg_allowed ''notes/../../allowed-2/secret'' = Inr ''/allowed-2/secret''
   \<and> sanitize_path cfg_allowed (BACKSLASH # ''/allowed-2/secret'') = Inr ''/allowed-2/secret''
   \<and> os_path_join ''/allowed'' (lstrip BACKSLASH (lstrip SEP (BACKSLASH # ''/allowed-2/secret'')))
       = ''/allowed-2/secret''
   \<and> \<not> prefix (path_comps (ALLOWED_BASE_PATH cfg_allowed)) (path_comps ''/allowed-2/secret'')"
  unfolding dotdot_code override_code override_join base_allowed comps_allowed comps_sibling
  by simp

end
